theory Spec2Isabelle
  imports Main
begin

section \<open>Python values\<close>

text \<open>
  The program (\<^verbatim>\<open>streamlit_app.py\<close>) works on the values that \<^verbatim>\<open>response.json()\<close>
  yields: \<^verbatim>\<open>None\<close>, booleans, integers, strings, lists and dictionaries with string keys.
  JSON numbers with a fraction or an exponent (Python floats) are not represented.
  A \<open>JDict\<close> holds the entries of a parsed object in order; its keys are distinct, and
  \<open>map_of\<close> reads it.
\<close>

datatype json =
    JNull
  | JBool bool
  | JInt int
  | JStr string
  | JList "json list"
  | JDict "(string \<times> json) list"

text \<open>
  An exception is given by the classes it is an instance of, so that the order of the
  \<^verbatim>\<open>except\<close> clauses decides as it does in Python: \<^verbatim>\<open>requests.exceptions.Timeout\<close> is
  also a \<^verbatim>\<open>RequestException\<close>. The built-in exceptions raised by the program's own
  operations belong to one class each.
\<close>

datatype pyclass = Timeout | RequestException | ValueError | TypeError | AttributeError | KeyError

type_synonym exn = "pyclass list"

definition isinstance :: "exn \<Rightarrow> pyclass \<Rightarrow> bool" where
  "isinstance e c = (c \<in> set e)"

text \<open>
  What \<^verbatim>\<open>response.json()\<close> raises for a body that does not parse, in \<^verbatim>\<open>requests\<close> 2.27 and
  later: \<^verbatim>\<open>requests.exceptions.JSONDecodeError\<close>, an instance of \<^verbatim>\<open>RequestException\<close>
  (through \<^verbatim>\<open>InvalidJSONError\<close>) and of \<^verbatim>\<open>ValueError\<close>.
\<close>

definition decode_failure :: exn where
  "decode_failure = [RequestException, ValueError]"

text \<open>Truth value of an object, as \<^verbatim>\<open>if x:\<close>, \<^verbatim>\<open>not x\<close> and \<^verbatim>\<open>x and y\<close> test it.\<close>

fun truthy :: "json \<Rightarrow> bool" where
  "truthy JNull = False"
| "truthy (JBool b) = b"
| "truthy (JInt n) = (n \<noteq> 0)"
| "truthy (JStr s) = (s \<noteq> [])"
| "truthy (JList xs) = (xs \<noteq> [])"
| "truthy (JDict kvs) = (kvs \<noteq> [])"

text \<open>\<^verbatim>\<open>obj.get(k, default)\<close>: only a dictionary has the method.\<close>

definition dict_get :: "(string \<times> json) list \<Rightarrow> string \<Rightarrow> json \<Rightarrow> json" where
  "dict_get kvs k dflt = (case map_of kvs k of None \<Rightarrow> dflt | Some v \<Rightarrow> v)"

fun py_get :: "json \<Rightarrow> string \<Rightarrow> json \<Rightarrow> exn + json" where
  "py_get (JDict kvs) k dflt = Inr (dict_get kvs k dflt)"
| "py_get _ k dflt = Inl [AttributeError]"

text \<open>
  \<^verbatim>\<open>for x in obj\<close>: a list gives its elements, a dictionary its keys, a string its
  characters; \<^verbatim>\<open>None\<close>, booleans and integers are not iterable.
\<close>

fun py_iter :: "json \<Rightarrow> exn + json list" where
  "py_iter (JList xs) = Inr xs"
| "py_iter (JDict kvs) = Inr (map (\<lambda>kv. JStr (fst kv)) kvs)"
| "py_iter (JStr s) = Inr (map (\<lambda>c. JStr [c]) s)"
| "py_iter _ = Inl [TypeError]"

text \<open>\<^verbatim>\<open>x == n\<close> for an integer literal \<open>n\<close>: \<^verbatim>\<open>True == 1\<close> and \<^verbatim>\<open>False == 0\<close> hold.\<close>

fun eq_int :: "json \<Rightarrow> int \<Rightarrow> bool" where
  "eq_int (JInt n) m = (n = m)"
| "eq_int (JBool b) m = ((if b then 1 else 0) = m)"
| "eq_int _ m = False"

subsection \<open>\<^verbatim>\<open>int(x)\<close>\<close>

text \<open>
  \<^verbatim>\<open>int\<close> of a string: surrounding whitespace is stripped, then an optional sign and
  decimal digits, single underscores allowed between digits. Characters are bytes here;
  the text read is ASCII (the decimal digits of other scripts, which Python accepts too,
  and the interpreter's limit on the number of digits are not represented; no theorem
  below depends on which strings parse, only on the outcome of the conversion).
\<close>

definition is_space :: "char \<Rightarrow> bool" where
  "is_space c = (of_char c \<in> {9, 10, 11, 12, 13, 32 :: nat})"

definition is_digit :: "char \<Rightarrow> bool" where
  "is_digit c = (48 \<le> (of_char c :: nat) \<and> (of_char c :: nat) \<le> 57)"

definition digit_val :: "char \<Rightarrow> nat" where
  "digit_val c = of_char c - 48"

fun digits :: "nat \<Rightarrow> string \<Rightarrow> nat option" where
  "digits acc [] = Some acc"
| "digits acc (c # cs) =
     (if is_digit c then digits (acc * 10 + digit_val c) cs
      else if c = CHR ''_'' then
        (case cs of [] \<Rightarrow> None
         | d # ds \<Rightarrow> if is_digit d then digits acc cs else None)
      else None)"

definition unsigned :: "string \<Rightarrow> nat option" where
  "unsigned s = (case s of [] \<Rightarrow> None | c # cs \<Rightarrow> if is_digit c then digits 0 s else None)"

definition strip :: "string \<Rightarrow> string" where
  "strip s = rev (dropWhile is_space (rev (dropWhile is_space s)))"

definition int_of_str :: "string \<Rightarrow> int option" where
  "int_of_str s =
     (case strip s of
        [] \<Rightarrow> None
      | c # cs \<Rightarrow>
          if c = CHR ''-'' then map_option (\<lambda>n. - int n) (unsigned cs)
          else if c = CHR ''+'' then map_option int (unsigned cs)
          else map_option int (unsigned (c # cs)))"

fun py_int :: "json \<Rightarrow> exn + int" where
  "py_int (JInt n) = Inr n"
| "py_int (JBool b) = Inr (if b then 1 else 0)"
| "py_int (JStr s) = (case int_of_str s of None \<Rightarrow> Inl [ValueError] | Some n \<Rightarrow> Inr n)"
| "py_int _ = Inl [TypeError]"

subsection \<open>Dictionary keys and \<^verbatim>\<open>str(x)\<close>\<close>

text \<open>
  The hashable values. Lists and dictionaries are not hashable: using one as a key raises
  \<^verbatim>\<open>TypeError\<close>. Keys are compared as Python compares them, \<^verbatim>\<open>True\<close> the same key as
  \<open>1\<close> and \<^verbatim>\<open>False\<close> as \<open>0\<close>.
\<close>

datatype key = KNone | KBool bool | KInt int | KStr string

fun hash_key :: "json \<Rightarrow> exn + key" where
  "hash_key JNull = Inr KNone"
| "hash_key (JBool b) = Inr (KBool b)"
| "hash_key (JInt n) = Inr (KInt n)"
| "hash_key (JStr s) = Inr (KStr s)"
| "hash_key _ = Inl [TypeError]"

fun norm_key :: "key \<Rightarrow> key" where
  "norm_key (KBool b) = KInt (if b then 1 else 0)"
| "norm_key k = k"

definition key_eq :: "key \<Rightarrow> key \<Rightarrow> bool" where
  "key_eq a b = (norm_key a = norm_key b)"

fun str_nat :: "nat \<Rightarrow> string" where
  "str_nat n = (if n < 10 then [char_of (48 + n)] else str_nat (n div 10) @ [char_of (48 + n mod 10)])"

declare str_nat.simps [simp del]

definition str_int :: "int \<Rightarrow> string" where
  "str_int i = (if i < 0 then CHR ''-'' # str_nat (nat (- i)) else str_nat (nat i))"

text \<open>What an f-string writes for \<^verbatim>\<open>{classid}\<close>.\<close>

fun py_str :: "key \<Rightarrow> string" where
  "py_str KNone = ''None''"
| "py_str (KBool b) = (if b then ''True'' else ''False'')"
| "py_str (KInt n) = str_int n"
| "py_str (KStr s) = s"

text \<open>
  A Python dictionary of the program: entries in insertion order. Assigning to a key that
  is present replaces the value where it stands and keeps the key object first inserted.
\<close>

type_synonym 'v pydict = "(key \<times> 'v) list"

fun lookup :: "'v pydict \<Rightarrow> key \<Rightarrow> 'v option" where
  "lookup [] k = None"
| "lookup ((k', v) # d) k = (if key_eq k' k then Some v else lookup d k)"

fun update :: "'v pydict \<Rightarrow> key \<Rightarrow> 'v \<Rightarrow> 'v pydict" where
  "update [] k v = [(k, v)]"
| "update ((k', v') # d) k v = (if key_eq k' k then (k', v) # d else (k', v') # update d k v)"

section \<open>\<^verbatim>\<open>fetch_steam_inventory\<close>\<close>

record item =
  quantity :: int
  icon_url :: string
  name :: json
  classid :: key
  tradable :: bool
  marketable :: bool
  tags :: json

record fetch_state =
  asset_quantities :: "int pydict"
  all_descriptions :: "json pydict"
  start_assetid :: json
  page_count :: nat

datatype fetch_result = Raised exn | Status string | Inventory "item pydict"

text \<open>The body of \<^verbatim>\<open>for asset in current_page_assets\<close> (lines 118-121).\<close>

definition asset_step :: "int pydict \<Rightarrow> json \<Rightarrow> exn + int pydict" where
  "asset_step aq asset =
     (case py_get asset ''classid'' JNull of
        Inl e \<Rightarrow> Inl e
      | Inr cid \<Rightarrow>
     (case py_get asset ''amount'' (JInt 1) of
        Inl e \<Rightarrow> Inl e
      | Inr amount \<Rightarrow>
     (case py_int amount of
        Inl e \<Rightarrow> Inl e
      | Inr qty \<Rightarrow>
     (case hash_key cid of
        Inl e \<Rightarrow> Inl e
      | Inr k \<Rightarrow> Inr (update aq k ((case lookup aq k of None \<Rightarrow> 0 | Some q \<Rightarrow> q) + qty))))))"

fun asset_loop :: "int pydict \<Rightarrow> json list \<Rightarrow> exn + int pydict" where
  "asset_loop aq [] = Inr aq"
| "asset_loop aq (asset # assets) =
     (case asset_step aq asset of Inl e \<Rightarrow> Inl e | Inr aq' \<Rightarrow> asset_loop aq' assets)"

text \<open>The body of \<^verbatim>\<open>for desc in data['descriptions']\<close> (lines 123-126).\<close>

definition desc_step :: "json pydict \<Rightarrow> json \<Rightarrow> exn + json pydict" where
  "desc_step ad desc =
     (case py_get desc ''classid'' JNull of
        Inl e \<Rightarrow> Inl e
      | Inr cid \<Rightarrow>
     (case hash_key cid of
        Inl e \<Rightarrow> Inl e
      | Inr k \<Rightarrow> Inr (if lookup ad k = None then update ad k desc else ad)))"

fun desc_loop :: "json pydict \<Rightarrow> json list \<Rightarrow> exn + json pydict" where
  "desc_loop ad [] = Inr ad"
| "desc_loop ad (desc # descs) =
     (case desc_step ad desc of Inl e \<Rightarrow> Inl e | Inr ad' \<Rightarrow> desc_loop ad' descs)"

text \<open>
  What one pass through the \<^verbatim>\<open>try\<close> block does with the parsed \<open>data\<close> (lines 113-139):
  it raises, returns a status string, or falls through with the new value of
  \<^verbatim>\<open>more_items\<close> and the updated accumulators.
\<close>

datatype outcome = Return string | Fall bool fetch_state

definition page_assets_descs :: "fetch_state \<Rightarrow> (string \<times> json) list \<Rightarrow> json \<Rightarrow> json \<Rightarrow> exn + outcome" where
  "page_assets_descs st kvs current_page_assets descriptions =
     (case py_iter current_page_assets of
        Inl e \<Rightarrow> Inl e
      | Inr assets \<Rightarrow>
     (case asset_loop (asset_quantities st) assets of
        Inl e \<Rightarrow> Inl e
      | Inr aq \<Rightarrow>
     (case py_iter descriptions of
        Inl e \<Rightarrow> Inl e
      | Inr descs \<Rightarrow>
     (case desc_loop (all_descriptions st) descs of
        Inl e \<Rightarrow> Inl e
      | Inr ad \<Rightarrow>
          if truthy (dict_get kvs ''more_items'' JNull) \<and> truthy (dict_get kvs ''last_assetid'' JNull)
          then Inr (Fall True (st\<lparr>asset_quantities := aq, all_descriptions := ad,
                                  start_assetid := dict_get kvs ''last_assetid'' JNull\<rparr>))
          else Inr (Fall False (st\<lparr>asset_quantities := aq, all_descriptions := ad\<rparr>))))))"

definition process_data :: "fetch_state \<Rightarrow> json \<Rightarrow> exn + outcome" where
  "process_data st data =
     (case data of
        JDict kvs \<Rightarrow>
          (case (map_of kvs ''assets'', map_of kvs ''descriptions'') of
             (Some current_page_assets, Some descriptions) \<Rightarrow>
               page_assets_descs st kvs current_page_assets descriptions
           | _ \<Rightarrow>
               if eq_int (dict_get kvs ''total_inventory_count'' (JInt 0)) 0
                  \<and> \<not> truthy (dict_get kvs ''assets'' JNull)
               then Inr (Return ''inventory_empty'')
               else if page_count st = 1 then Inr (Return ''inventory_private_or_error'')
               else Inr (Fall False st))
      | _ \<Rightarrow> Inr (Return ''inventory_private_or_empty''))"

text \<open>
  A response is what lines 109-111 (\<^verbatim>\<open>requests.get\<close>, \<^verbatim>\<open>raise_for_status\<close>,
  \<^verbatim>\<open>response.json()\<close>) give: the exception raised, or the parsed body. The \<^verbatim>\<open>except\<close>
  clauses (lines 141-146) are tried in order; an exception none of them names leaves the
  function.
\<close>

type_synonym response = "exn + json"

definition handlers :: "exn \<Rightarrow> fetch_result" where
  "handlers e =
     (if isinstance e Timeout then Status ''request_timeout''
      else if isinstance e RequestException then Status ''network_error''
      else if isinstance e ValueError then Status ''api_decode_error''
      else Raised e)"

definition iteration :: "fetch_state \<Rightarrow> response \<Rightarrow> fetch_result + bool \<times> fetch_state" where
  "iteration st r =
     (case (case r of Inl e \<Rightarrow> Inl e | Inr data \<Rightarrow> process_data st data) of
        Inl e \<Rightarrow> Inl (handlers e)
      | Inr (Return s) \<Rightarrow> Inl (Status s)
      | Inr (Fall more_items st') \<Rightarrow> Inr (more_items, st'))"

text \<open>
  The \<^verbatim>\<open>while more_items\<close> loop (lines 102-146), run against the responses the successive
  requests receive (the URL asked, which \<^verbatim>\<open>start_assetid\<close> extends, and the pause between
  pages do not enter the result). The loop has no bound of its own. \<open>Exit\<close> is a return or an
  exception that leaves the function, \<open>Done\<close> the normal end of the loop, and \<open>Asking\<close> says
  that the responses given are used up while the loop would request another page.
\<close>

datatype run = Exit fetch_result | Done fetch_state | Asking fetch_state

fun fetch_loop :: "fetch_state \<Rightarrow> response list \<Rightarrow> run" where
  "fetch_loop st [] = Asking st"
| "fetch_loop st (r # rs) =
     (case iteration (st\<lparr>page_count := page_count st + 1\<rparr>) r of
        Inl res \<Rightarrow> Exit res
      | Inr (more_items, st') \<Rightarrow> if more_items then fetch_loop st' rs else Done st')"

definition init_state :: fetch_state where
  "init_state = \<lparr>asset_quantities = [], all_descriptions = [], start_assetid = JNull, page_count = 0\<rparr>"

subsection \<open>The join (lines 148-175)\<close>

definition full_icon_url :: "json \<Rightarrow> exn + string" where
  "full_icon_url icon_url_suffix =
     (if truthy icon_url_suffix then
        (case icon_url_suffix of
           JStr s \<Rightarrow> Inr (''https://community.cloudflare.steamstatic.com/economy/image/''
                          @ dropWhile (\<lambda>c. c = CHR ''/'') s @ ''/120x50'')
         | _ \<Rightarrow> Inl [AttributeError])
      else Inr '''')"

definition join_described :: "item pydict \<Rightarrow> key \<Rightarrow> int \<Rightarrow> json \<Rightarrow> exn + item pydict" where
  "join_described detailed cid qty desc_obj =
     (case py_get desc_obj ''name'' (JStr (''Unknown Item '' @ py_str cid)) of
        Inl e \<Rightarrow> Inl e
      | Inr name_or_unknown \<Rightarrow>
     (case py_get desc_obj ''market_hash_name'' name_or_unknown of
        Inl e \<Rightarrow> Inl e
      | Inr market_hash_name \<Rightarrow>
     (case py_get desc_obj ''icon_url'' (JStr '''') of
        Inl e \<Rightarrow> Inl e
      | Inr icon_url_suffix \<Rightarrow>
     (case full_icon_url icon_url_suffix of
        Inl e \<Rightarrow> Inl e
      | Inr full \<Rightarrow>
     (case hash_key market_hash_name of
        Inl e \<Rightarrow> Inl e
      | Inr k \<Rightarrow>
     (case py_get desc_obj ''name'' (JStr ''Unknown Item'') of
        Inl e \<Rightarrow> Inl e
      | Inr nm \<Rightarrow>
     (case py_get desc_obj ''tradable'' (JInt 0) of
        Inl e \<Rightarrow> Inl e
      | Inr tr \<Rightarrow>
     (case py_get desc_obj ''marketable'' (JInt 0) of
        Inl e \<Rightarrow> Inl e
      | Inr mk \<Rightarrow>
     (case py_get desc_obj ''tags'' (JList []) of
        Inl e \<Rightarrow> Inl e
      | Inr tg \<Rightarrow>
          (let detailed' =
                 (if lookup detailed k = None
                  then update detailed k
                         \<lparr>quantity = 0, icon_url = full, name = nm, classid = cid,
                          tradable = eq_int tr 1, marketable = eq_int mk 1, tags = tg\<rparr>
                  else detailed)
           in case lookup detailed' k of
                None \<Rightarrow> Inl [KeyError]
              | Some it \<Rightarrow> Inr (update detailed' k (it\<lparr>quantity := quantity it + qty\<rparr>))))))))))))"

definition join_step :: "json pydict \<Rightarrow> item pydict \<Rightarrow> key \<times> int \<Rightarrow> exn + item pydict" where
  "join_step descs detailed cq =
     (case cq of (cid, qty) \<Rightarrow>
        (case lookup descs cid of
           Some desc_obj \<Rightarrow> join_described detailed cid qty desc_obj
         | None \<Rightarrow>
             (let market_hash_name = ''Unknown Item (ClassID: '' @ py_str cid @ '')''
              in Inr (update detailed (KStr market_hash_name)
                        \<lparr>quantity = qty, icon_url = '''', name = JStr market_hash_name,
                         classid = cid, tradable = False, marketable = False,
                         tags = JList []\<rparr>))))"

fun join_loop :: "json pydict \<Rightarrow> item pydict \<Rightarrow> (key \<times> int) list \<Rightarrow> exn + item pydict" where
  "join_loop descs detailed [] = Inr detailed"
| "join_loop descs detailed (cq # cqs) =
     (case join_step descs detailed cq of
        Inl e \<Rightarrow> Inl e
      | Inr detailed' \<Rightarrow> join_loop descs detailed' cqs)"

definition join :: "fetch_state \<Rightarrow> fetch_result" where
  "join st =
     (case join_loop (all_descriptions st) [] (asset_quantities st) of
        Inl e \<Rightarrow> Raised e
      | Inr detailed \<Rightarrow> Inventory detailed)"

text \<open>
  The whole function, given the responses to its requests: \<open>None\<close> when it has not returned
  with the responses given. The arguments \<^verbatim>\<open>steam_id\<close>, \<^verbatim>\<open>app_id\<close> and \<^verbatim>\<open>context_id\<close> only
  shape the URL; the cache that decorates the function decides whether it runs, not what
  it computes.
\<close>

definition fetch_steam_inventory :: "response list \<Rightarrow> fetch_result option" where
  "fetch_steam_inventory responses =
     (case fetch_loop init_state responses of
        Asking st \<Rightarrow> None
      | Exit res \<Rightarrow> Some res
      | Done st \<Rightarrow> Some (join st))"

section \<open>\<^verbatim>\<open>analyze_inventories_for_streamlit\<close>\<close>

record results =
  fixed_user_tradable_duplicates :: "item pydict"
  fixed_user_has_you_dont_dupes :: "item pydict"
  you_have_fixed_user_doesnt_dupes :: "item pydict"

definition analyze_inventories_for_streamlit :: "item pydict \<Rightarrow> item pydict \<Rightarrow> results" where
  "analyze_inventories_for_streamlit fixed_user_inv your_inv =
     \<lparr>fixed_user_tradable_duplicates =
        foldl (\<lambda>res (item_hash, data).
                 if quantity data > 1 \<and> tradable data then update res item_hash data else res)
              [] fixed_user_inv,
      fixed_user_has_you_dont_dupes =
        foldl (\<lambda>res (item_hash, data).
                 if quantity data > 1 \<and> tradable data \<and> lookup your_inv item_hash = None
                 then update res item_hash data else res)
              [] fixed_user_inv,
      you_have_fixed_user_doesnt_dupes =
        foldl (\<lambda>res (item_hash, data).
                 if quantity data > 1 \<and> tradable data \<and> lookup fixed_user_inv item_hash = None
                 then update res item_hash data else res)
              [] your_inv\<rparr>"

text \<open>
  The keys of a dictionary differ from one another.
\<close>

fun distinct_keys :: "'v pydict \<Rightarrow> bool" where
  "distinct_keys [] = True"
| "distinct_keys ((k, v) # d) = (lookup d k = None \<and> distinct_keys d)"

section \<open>Pages, asset records and description records\<close>

text \<open>
  The notions the properties below are stated with. The class id of a record is its
  \<^verbatim>\<open>classid\<close> field (\<^verbatim>\<open>None\<close> when the record has none), as a dictionary key; the amount
  of an asset record is the integer value of its \<^verbatim>\<open>amount\<close> field, and 1 when the field is
  missing.
\<close>

definition class_of :: "json \<Rightarrow> key option" where
  "class_of r =
     (case r of
        JDict kvs \<Rightarrow> (case hash_key (dict_get kvs ''classid'' JNull) of Inr k \<Rightarrow> Some k | Inl e \<Rightarrow> None)
      | _ \<Rightarrow> None)"

definition amount_of :: "json \<Rightarrow> int option" where
  "amount_of asset =
     (case asset of
        JDict kvs \<Rightarrow>
          (case map_of kvs ''amount'' of
             None \<Rightarrow> Some 1
           | Some v \<Rightarrow> (case py_int v of Inr n \<Rightarrow> Some n | Inl e \<Rightarrow> None))
      | _ \<Rightarrow> None)"

definition has_class :: "key \<Rightarrow> json \<Rightarrow> bool" where
  "has_class c r = (case class_of r of Some k \<Rightarrow> key_eq k c | None \<Rightarrow> False)"

definition total_amount :: "key \<Rightarrow> json list \<Rightarrow> int" where
  "total_amount c assets =
     sum_list (map (\<lambda>a. case amount_of a of Some n \<Rightarrow> n | None \<Rightarrow> 0) (filter (has_class c) assets))"

text \<open>
  A valid page is an object whose \<^verbatim>\<open>assets\<close> and \<^verbatim>\<open>descriptions\<close> are lists of records
  with a class id, the asset records with an amount. A page announces more when its
  \<^verbatim>\<open>more_items\<close> and \<^verbatim>\<open>last_assetid\<close> are both true values. The pages of one fetch: every
  page but the last announces more, the last does not.
\<close>

definition valid_asset :: "json \<Rightarrow> bool" where
  "valid_asset a = (class_of a \<noteq> None \<and> amount_of a \<noteq> None)"

definition valid_description :: "json \<Rightarrow> bool" where
  "valid_description d = (class_of d \<noteq> None)"

definition page_assets :: "json \<Rightarrow> json list" where
  "page_assets page =
     (case page of
        JDict kvs \<Rightarrow> (case map_of kvs ''assets'' of Some (JList xs) \<Rightarrow> xs | _ \<Rightarrow> [])
      | _ \<Rightarrow> [])"

definition page_descriptions :: "json \<Rightarrow> json list" where
  "page_descriptions page =
     (case page of
        JDict kvs \<Rightarrow> (case map_of kvs ''descriptions'' of Some (JList xs) \<Rightarrow> xs | _ \<Rightarrow> [])
      | _ \<Rightarrow> [])"

definition valid_page :: "json \<Rightarrow> bool" where
  "valid_page page =
     (case page of
        JDict kvs \<Rightarrow>
          (case (map_of kvs ''assets'', map_of kvs ''descriptions'') of
             (Some (JList assets), Some (JList descs)) \<Rightarrow>
               list_all valid_asset assets \<and> list_all valid_description descs
           | _ \<Rightarrow> False)
      | _ \<Rightarrow> False)"

definition has_more :: "json \<Rightarrow> bool" where
  "has_more page =
     (case page of
        JDict kvs \<Rightarrow> truthy (dict_get kvs ''more_items'' JNull) \<and> truthy (dict_get kvs ''last_assetid'' JNull)
      | _ \<Rightarrow> False)"

fun page_sequence :: "json list \<Rightarrow> bool" where
  "page_sequence [] = False"
| "page_sequence [p] = (valid_page p \<and> \<not> has_more p)"
| "page_sequence (p # ps) = (valid_page p \<and> has_more p \<and> page_sequence ps)"

text \<open>
  The quantity of class \<open>c\<close> after more asset records, from the quantity \<open>old\<close> before them,
  and the description of class \<open>c\<close> after more description records.
\<close>

definition tally :: "int option \<Rightarrow> key \<Rightarrow> json list \<Rightarrow> int option" where
  "tally old c assets =
     (if list_ex (has_class c) assets
      then Some ((case old of None \<Rightarrow> 0 | Some q \<Rightarrow> q) + total_amount c assets)
      else old)"

definition first_seen :: "json option \<Rightarrow> key \<Rightarrow> json list \<Rightarrow> json option" where
  "first_seen old c descs = (case old of Some d \<Rightarrow> Some d | None \<Rightarrow> find (has_class c) descs)"

text \<open>
  An asset record carries a positive amount when its amount is an integer of at least 1;
  the responses carry positive amounts when every asset record of every page does.
\<close>

definition positive_amount :: "json \<Rightarrow> bool" where
  "positive_amount asset = (case amount_of asset of Some n \<Rightarrow> 1 \<le> n | None \<Rightarrow> False)"

definition positive_amounts :: "response list \<Rightarrow> bool" where
  "positive_amounts responses =
     list_all (\<lambda>r. case r of Inl e \<Rightarrow> True | Inr page \<Rightarrow> list_all positive_amount (page_assets page))
       responses"

text \<open>
  The entry the join creates for a key it has not seen (lines 159-167), from the class id,
  the description and the icon address.
\<close>

definition new_item :: "key \<Rightarrow> (string \<times> json) list \<Rightarrow> string \<Rightarrow> item" where
  "new_item cid kvs full =
     \<lparr>quantity = 0, icon_url = full, name = dict_get kvs ''name'' (JStr ''Unknown Item''),
      classid = cid, tradable = eq_int (dict_get kvs ''tradable'' (JInt 0)) 1,
      marketable = eq_int (dict_get kvs ''marketable'' (JInt 0)) 1,
      tags = dict_get kvs ''tags'' (JList [])\<rparr>"



text \<open>
  A response object that does not supply both \<^verbatim>\<open>assets\<close> and \<^verbatim>\<open>descriptions\<close>. It reports a
  zero total when its \<^verbatim>\<open>total_inventory_count\<close> is there and equals 0; it has no assets when
  \<^verbatim>\<open>assets\<close> is missing or not a true value. \<open>claimed_outcome\<close> is the outcome the
  specification gives for such a response, \<open>zero_or_no_total\<close> the test the program makes.
\<close>

definition lacks_keys :: "(string \<times> json) list \<Rightarrow> bool" where
  "lacks_keys kvs = (map_of kvs ''assets'' = None \<or> map_of kvs ''descriptions'' = None)"

definition reports_zero_total :: "(string \<times> json) list \<Rightarrow> bool" where
  "reports_zero_total kvs =
     (case map_of kvs ''total_inventory_count'' of Some v \<Rightarrow> eq_int v 0 | None \<Rightarrow> False)"

definition zero_or_no_total :: "(string \<times> json) list \<Rightarrow> bool" where
  "zero_or_no_total kvs =
     (case map_of kvs ''total_inventory_count'' of Some v \<Rightarrow> eq_int v 0 | None \<Rightarrow> True)"

definition no_assets :: "(string \<times> json) list \<Rightarrow> bool" where
  "no_assets kvs = (case map_of kvs ''assets'' of Some a \<Rightarrow> \<not> truthy a | None \<Rightarrow> True)"

definition claimed_outcome :: "bool \<Rightarrow> fetch_state \<Rightarrow> (string \<times> json) list \<Rightarrow> fetch_result" where
  "claimed_outcome first_page st kvs =
     (if reports_zero_total kvs \<and> no_assets kvs then Status ''inventory_empty''
      else if first_page then Status ''inventory_private_or_error''
      else join st)"

section \<open>Example data\<close>

text \<open>
  A first page that announces more items and a second page that describes class \<open>1\<close> again
  under another name; the accumulators after the first page, the inventory joined from
  them and the inventory returned after both pages; another inventory; a page with an
  amount that is no number; and a page on which the key of a described class id is the key
  synthesized for a class id without description.
\<close>

definition page_one :: json where
  "page_one = JDict
     [(''assets'', JList [JDict [(''classid'', JStr ''1''), (''amount'', JStr ''2'')],
                          JDict [(''classid'', JStr ''1'')],
                          JDict [(''classid'', JStr ''2''), (''amount'', JInt 3)]]),
      (''descriptions'', JList [JDict [(''classid'', JStr ''1''), (''name'', JStr ''A''),
                                       (''tradable'', JInt 1), (''icon_url'', JStr ''/abc'')]]),
      (''more_items'', JInt 1),
      (''last_assetid'', JStr ''77'')]"

definition page_two :: json where
  "page_two = JDict
     [(''assets'', JList [JDict [(''classid'', JStr ''1''), (''amount'', JStr ''2'')]]),
      (''descriptions'', JList [JDict [(''classid'', JStr ''1''), (''name'', JStr ''B'')]])]"

definition state_one :: fetch_state where
  "state_one =
     \<lparr>asset_quantities = [(KStr ''1'', 3), (KStr ''2'', 3)],
      all_descriptions = [(KStr ''1'', JDict [(''classid'', JStr ''1''), (''name'', JStr ''A''),
                                             (''tradable'', JInt 1), (''icon_url'', JStr ''/abc'')])],
      start_assetid = JStr ''77'',
      page_count = 1\<rparr>"

definition inventory_two :: "item pydict" where
  "inventory_two =
     [(KStr ''A'',
       \<lparr>quantity = 5,
        icon_url = ''https://community.cloudflare.steamstatic.com/economy/image/abc/120x50'',
        name = JStr ''A'', classid = KStr ''1'', tradable = True, marketable = False,
        tags = JList []\<rparr>),
      (KStr ''Unknown Item (ClassID: 2)'',
       \<lparr>quantity = 3, icon_url = '''', name = JStr ''Unknown Item (ClassID: 2)'',
        classid = KStr ''2'', tradable = False, marketable = False, tags = JList []\<rparr>)]"

definition inventory_other :: "item pydict" where
  "inventory_other =
     [(KStr ''Unknown Item (ClassID: 2)'',
       \<lparr>quantity = 1, icon_url = '''', name = JStr ''Unknown Item (ClassID: 2)'',
        classid = KStr ''2'', tradable = False, marketable = False, tags = JList []\<rparr>),
      (KStr ''C'',
       \<lparr>quantity = 2, icon_url = '''', name = JStr ''C'', classid = KStr ''3'',
        tradable = True, marketable = True, tags = JList []\<rparr>)]"


definition item_a :: item where
  "item_a = \<lparr>quantity = 3,
      icon_url = ''https://community.cloudflare.steamstatic.com/economy/image/abc/120x50'',
      name = JStr ''A'', classid = KStr ''1'', tradable = True, marketable = False,
      tags = JList []\<rparr>"

definition item_unknown :: item where
  "item_unknown = \<lparr>quantity = 3, icon_url = '''', name = JStr ''Unknown Item (ClassID: 2)'',
      classid = KStr ''2'', tradable = False, marketable = False, tags = JList []\<rparr>"

definition inventory_one :: "item pydict" where
  "inventory_one = [(KStr ''A'', item_a), (KStr ''Unknown Item (ClassID: 2)'', item_unknown)]"

definition page_bad_amount :: "(string \<times> json) list" where
  "page_bad_amount =
     [(''assets'', JList [JDict [(''classid'', JStr ''1''), (''amount'', JStr ''2'')],
                          JDict [(''classid'', JStr ''3''), (''amount'', JStr ''two'')],
                          JDict [(''classid'', JStr ''4'')]]),
      (''descriptions'', JList [])]"

definition page_collision :: json where
  "page_collision = JDict
     [(''assets'', JList [JDict [(''classid'', JStr ''1''), (''amount'', JStr ''5'')],
                          JDict [(''classid'', JStr ''2''), (''amount'', JStr ''3'')]]),
      (''descriptions'', JList [JDict [(''classid'', JStr ''1''),
                                       (''market_hash_name'', JStr ''Unknown Item (ClassID: 2)''),
                                       (''name'', JStr ''A''), (''tradable'', JInt 1)]])]"

section \<open>Basic facts\<close>

lemma key_eq_refl [simp]: "key_eq k k"
  by (simp add: key_eq_def)

lemma key_eq_sym: "key_eq a b \<Longrightarrow> key_eq b a"
  by (simp add: key_eq_def)

lemma key_eq_trans: "key_eq a b \<Longrightarrow> key_eq b c \<Longrightarrow> key_eq a c"
  by (simp add: key_eq_def)

lemma lookup_update: "lookup (update d k v) k' = (if key_eq k k' then Some v else lookup d k')"
  by (induction d) (auto simp: key_eq_def)

lemma fetch_loop_append:
  "fetch_loop st rs = Asking st' \<Longrightarrow> fetch_loop st (rs @ rs') = fetch_loop st' rs'"
  by (induction rs arbitrary: st) (auto split: sum.splits if_splits prod.splits)

lemma page_assets_descs_page_count:
  "page_assets_descs st kvs a d = Inr (Fall b st') \<Longrightarrow> page_count st' = page_count st"
  by (auto simp: page_assets_descs_def split: sum.splits if_splits)

lemma process_data_page_count:
  "process_data st data = Inr (Fall b st') \<Longrightarrow> page_count st' = page_count st"
  by (auto simp: process_data_def split: json.splits option.splits if_splits
           dest: page_assets_descs_page_count)

lemma iteration_page_count:
  "iteration st r = Inr (b, st') \<Longrightarrow> page_count st' = page_count st"
  by (auto simp: iteration_def split: sum.splits outcome.splits dest: process_data_page_count)

lemma fetch_loop_page_count:
  "fetch_loop st rs = Asking st' \<Longrightarrow> page_count st' = page_count st + length rs"
proof (induction rs arbitrary: st)
  case Nil
  then show ?case by simp
next
  case (Cons r rs)
  then show ?case
    by (auto split: sum.splits if_splits prod.splits dest!: iteration_page_count)
qed

subsection \<open>Accumulation over valid pages\<close>

lemma lookup_key_eq: "key_eq k c \<Longrightarrow> lookup d k = lookup d c"
  by (induction d) (auto simp: key_eq_def)

lemma tally_Nil [simp]: "tally old c [] = old"
  by (simp add: tally_def)

lemma filter_none: "\<not> list_ex P xs \<Longrightarrow> filter P xs = []"
  by (induction xs) auto

lemma tally_append: "tally (tally old c xs) c ys = tally old c (xs @ ys)"
  by (auto simp: tally_def total_amount_def filter_none split: option.splits)

lemma find_app: "find P (xs @ ys) = (case find P xs of Some x \<Rightarrow> Some x | None \<Rightarrow> find P ys)"
  by (induction xs) auto

lemma first_seen_Nil [simp]: "first_seen old c [] = old"
  by (cases old) (simp_all add: first_seen_def)

lemma first_seen_append: "first_seen (first_seen old c xs) c ys = first_seen old c (xs @ ys)"
  by (auto simp: first_seen_def find_app split: option.splits)

lemma asset_step_valid:
  assumes "class_of a = Some k" "amount_of a = Some n"
  shows "asset_step aq a = Inr (update aq k ((case lookup aq k of None \<Rightarrow> 0 | Some q \<Rightarrow> q) + n))"
  using assms
  by (auto simp: class_of_def amount_of_def asset_step_def dict_get_def
           split: json.splits sum.splits option.splits)

lemma asset_loop_tally:
  "list_all valid_asset assets \<Longrightarrow>
   \<exists>aq'. asset_loop aq assets = Inr aq' \<and> (\<forall>c. lookup aq' c = tally (lookup aq c) c assets)"
proof (induction assets arbitrary: aq)
  case Nil
  then show ?case by simp
next
  case (Cons a assets)
  from Cons.prems obtain k n where kn: "class_of a = Some k" "amount_of a = Some n"
    by (auto simp: valid_asset_def)
  let ?aq1 = "update aq k ((case lookup aq k of None \<Rightarrow> 0 | Some q \<Rightarrow> q) + n)"
  from Cons.prems have "list_all valid_asset assets" by simp
  from Cons.IH [OF this, of ?aq1] obtain aq' where
    run: "asset_loop ?aq1 assets = Inr aq'" and
    look: "\<And>c. lookup aq' c = tally (lookup ?aq1 c) c assets"
    by blast
  have step: "\<And>c. tally (lookup ?aq1 c) c assets = tally (lookup aq c) c (a # assets)"
    using kn
    by (auto simp: lookup_update tally_def total_amount_def has_class_def lookup_key_eq filter_none
             split: option.splits)
  show ?case
    using run look step by (simp add: asset_step_valid [OF kn])
qed

lemma desc_step_valid:
  assumes "class_of d = Some k"
  shows "desc_step ad d = Inr (if lookup ad k = None then update ad k d else ad)"
  using assms
  by (auto simp: class_of_def desc_step_def split: json.splits sum.splits)

lemma desc_loop_first_seen:
  "list_all valid_description descs \<Longrightarrow>
   \<exists>ad'. desc_loop ad descs = Inr ad' \<and> (\<forall>c. lookup ad' c = first_seen (lookup ad c) c descs)"
proof (induction descs arbitrary: ad)
  case Nil
  then show ?case by simp
next
  case (Cons d descs)
  from Cons.prems obtain k where k: "class_of d = Some k"
    by (auto simp: valid_description_def)
  let ?ad1 = "if lookup ad k = None then update ad k d else ad"
  from Cons.prems have "list_all valid_description descs" by simp
  from Cons.IH [OF this, of ?ad1] obtain ad' where
    run: "desc_loop ?ad1 descs = Inr ad'" and
    look: "\<And>c. lookup ad' c = first_seen (lookup ?ad1 c) c descs"
    by blast
  have step: "\<And>c. first_seen (lookup ?ad1 c) c descs = first_seen (lookup ad c) c (d # descs)"
    using k
    by (auto simp: lookup_update first_seen_def has_class_def lookup_key_eq
             split: option.splits)
  show ?case
    using run look step by (simp add: desc_step_valid [OF k])
qed


lemma process_data_valid:
  assumes "valid_page p"
  shows "\<exists>st'. process_data st p = Inr (Fall (has_more p) st')
           \<and> (\<forall>c. lookup (asset_quantities st') c
                   = tally (lookup (asset_quantities st) c) c (page_assets p))
           \<and> (\<forall>c. lookup (all_descriptions st') c
                   = first_seen (lookup (all_descriptions st) c) c (page_descriptions p))"
proof -
  from assms obtain kvs assets descs where
    p: "p = JDict kvs" and
    a: "map_of kvs ''assets'' = Some (JList assets)" and
    d: "map_of kvs ''descriptions'' = Some (JList descs)" and
    va: "list_all valid_asset assets" and
    vd: "list_all valid_description descs"
    by (auto simp: valid_page_def split: json.splits option.splits)
  from asset_loop_tally [OF va, of "asset_quantities st"] obtain aq' where
    aq: "asset_loop (asset_quantities st) assets = Inr aq'"
        "\<And>c. lookup aq' c = tally (lookup (asset_quantities st) c) c assets"
    by blast
  from desc_loop_first_seen [OF vd, of "all_descriptions st"] obtain ad' where
    ad: "desc_loop (all_descriptions st) descs = Inr ad'"
        "\<And>c. lookup ad' c = first_seen (lookup (all_descriptions st) c) c descs"
    by blast
  show ?thesis
    using p a d aq ad
    by (simp add: process_data_def page_assets_descs_def has_more_def page_assets_def
                  page_descriptions_def)
qed

lemma fetch_loop_sequence:
  "page_sequence pages \<Longrightarrow>
   \<exists>st'. fetch_loop st (map Inr pages) = Done st'
         \<and> (\<forall>c. lookup (asset_quantities st') c
                 = tally (lookup (asset_quantities st) c) c (concat (map page_assets pages)))
         \<and> (\<forall>c. lookup (all_descriptions st') c
                 = first_seen (lookup (all_descriptions st) c) c
                     (concat (map page_descriptions pages)))"
proof (induction pages arbitrary: st rule: page_sequence.induct)
  case 1
  then show ?case by simp
next
  case (2 p)
  then have "valid_page p" "\<not> has_more p" by simp_all
  with process_data_valid [of p "st\<lparr>page_count := page_count st + 1\<rparr>"]
  show ?case by (auto simp: iteration_def)
next
  case (3 p q ps)
  then have vp: "valid_page p" and more: "has_more p" and rest: "page_sequence (q # ps)"
    by simp_all
  from process_data_valid [OF vp, of "st\<lparr>page_count := page_count st + 1\<rparr>"] more
  obtain st1 where
    s1: "process_data (st\<lparr>page_count := page_count st + 1\<rparr>) p = Inr (Fall True st1)"
        "\<And>c. lookup (asset_quantities st1) c
               = tally (lookup (asset_quantities st) c) c (page_assets p)"
        "\<And>c. lookup (all_descriptions st1) c
               = first_seen (lookup (all_descriptions st) c) c (page_descriptions p)"
    by auto
  from "3.IH" [OF rest, of st1] obtain st' where
    s2: "fetch_loop st1 (map Inr (q # ps)) = Done st'"
        "\<And>c. lookup (asset_quantities st') c
               = tally (lookup (asset_quantities st1) c) c (concat (map page_assets (q # ps)))"
        "\<And>c. lookup (all_descriptions st') c
               = first_seen (lookup (all_descriptions st1) c) c
                   (concat (map page_descriptions (q # ps)))"
    by blast
  have "fetch_loop st (map Inr (p # q # ps)) = Done st'"
    using s1(1) s2(1) by (simp add: iteration_def)
  moreover have "\<And>c. lookup (asset_quantities st') c
      = tally (lookup (asset_quantities st) c) c (concat (map page_assets (p # q # ps)))"
    using s1(2) s2(2) tally_append by simp
  moreover have "\<And>c. lookup (all_descriptions st') c
      = first_seen (lookup (all_descriptions st) c) c (concat (map page_descriptions (p # q # ps)))"
    using s1(3) s2(3) first_seen_append by simp
  ultimately show ?case by blast
qed

subsection \<open>Quantities stay positive\<close>

lemma update_set: "(k', v') \<in> set (update d k v) \<Longrightarrow> v' = v \<or> (k', v') \<in> set d"
  by (induction d) (auto split: if_splits)

lemma lookup_in_set: "lookup d k = Some v \<Longrightarrow> \<exists>k'. (k', v) \<in> set d"
  by (induction d) (auto split: if_splits)

lemma update_update: "update (update d k v) k w = update d k w"
  by (induction d) auto

lemma asset_step_success:
  assumes "asset_step aq a = Inr aq'"
  shows "\<exists>k n. class_of a = Some k \<and> amount_of a = Some n
           \<and> aq' = update aq k ((case lookup aq k of None \<Rightarrow> 0 | Some q \<Rightarrow> q) + n)"
  using assms
  by (auto simp: asset_step_def class_of_def amount_of_def dict_get_def
           split: sum.splits json.splits option.splits)

lemma asset_step_positive:
  assumes "asset_step aq a = Inr aq'" "positive_amount a" "\<forall>(k, q) \<in> set aq. 1 \<le> q"
  shows "\<forall>(k, q) \<in> set aq'. 1 \<le> q"
proof -
  from asset_step_success [OF assms(1)] obtain k n where
    kn: "amount_of a = Some n"
        "aq' = update aq k ((case lookup aq k of None \<Rightarrow> 0 | Some q \<Rightarrow> q) + n)"
    by blast
  from kn(1) assms(2) have n: "1 \<le> n" by (simp add: positive_amount_def)
  have "0 \<le> (case lookup aq k of None \<Rightarrow> 0 | Some q \<Rightarrow> q)"
    using assms(3) by (auto split: option.splits dest!: lookup_in_set)
  with n have "1 \<le> (case lookup aq k of None \<Rightarrow> 0 | Some q \<Rightarrow> q) + n" by simp
  with assms(3) show ?thesis
    unfolding kn(2) by (auto dest!: update_set)
qed

lemma asset_loop_positive:
  "asset_loop aq assets = Inr aq' \<Longrightarrow> list_all positive_amount assets \<Longrightarrow>
   \<forall>(k, q) \<in> set aq. 1 \<le> q \<Longrightarrow> \<forall>(k, q) \<in> set aq'. 1 \<le> q"
proof (induction assets arbitrary: aq)
  case Nil
  then show ?case by simp
next
  case (Cons a assets)
  from Cons.prems(1) obtain aq1 where
    1: "asset_step aq a = Inr aq1" and 2: "asset_loop aq1 assets = Inr aq'"
    by (auto split: sum.splits)
  from Cons.prems(2) have pa: "positive_amount a" and ps: "list_all positive_amount assets"
    by simp_all
  from asset_step_positive [OF 1 pa Cons.prems(3)] Cons.IH [OF 2 ps]
  show ?case by blast
qed

lemma asset_loop_strings:
  "asset_loop aq (map (\<lambda>x. JStr (g x)) xs) = Inr aq' \<Longrightarrow> aq' = aq"
  by (cases xs) (auto simp: asset_step_def)

lemma page_assets_descs_quantities:
  assumes "page_assets_descs st kvs a d = Inr (Fall b st')"
  shows "\<exists>assets. py_iter a = Inr assets
           \<and> asset_loop (asset_quantities st) assets = Inr (asset_quantities st')"
  using assms
  by (auto simp: page_assets_descs_def split: sum.splits if_splits)

lemma page_assets_descs_positive:
  assumes "page_assets_descs st kvs a d = Inr (Fall b st')"
    and "\<And>xs. a = JList xs \<Longrightarrow> list_all positive_amount xs"
    and "\<forall>(k, q) \<in> set (asset_quantities st). 1 \<le> q"
  shows "\<forall>(k, q) \<in> set (asset_quantities st'). 1 \<le> q"
proof -
  from page_assets_descs_quantities [OF assms(1)] obtain assets where
    it: "py_iter a = Inr assets" and
    lp: "asset_loop (asset_quantities st) assets = Inr (asset_quantities st')"
    by blast
  show ?thesis
  proof (cases a)
    case (JList xs)
    with it assms(2) have "list_all positive_amount assets" by simp
    from asset_loop_positive [OF lp this assms(3)] show ?thesis .
  next
    case (JDict es)
    with it lp have "asset_quantities st' = asset_quantities st"
      by (auto dest: asset_loop_strings)
    with assms(3) show ?thesis by simp
  next
    case (JStr cs)
    with it lp have "asset_quantities st' = asset_quantities st"
      by (auto dest: asset_loop_strings)
    with assms(3) show ?thesis by simp
  qed (use it in simp_all)
qed

lemma process_data_positive:
  assumes "process_data st data = Inr (Fall b st')"
    and "list_all positive_amount (page_assets data)"
    and "\<forall>(k, q) \<in> set (asset_quantities st). 1 \<le> q"
  shows "\<forall>(k, q) \<in> set (asset_quantities st'). 1 \<le> q"
proof (cases data)
  case (JDict kvs)
  show ?thesis
  proof (cases "map_of kvs ''assets''")
    case None
    with JDict assms(1,3) show ?thesis
      by (auto simp: process_data_def split: if_splits)
  next
    case (Some a)
    show ?thesis
    proof (cases "map_of kvs ''descriptions''")
      case None
      with JDict Some assms(1,3) show ?thesis
        by (auto simp: process_data_def split: if_splits)
    next
      case (Some d)
      with JDict \<open>map_of kvs ''assets'' = Some a\<close> assms(1)
      have run: "page_assets_descs st kvs a d = Inr (Fall b st')"
        by (simp add: process_data_def)
      have "\<And>xs. a = JList xs \<Longrightarrow> list_all positive_amount xs"
        using assms(2) JDict \<open>map_of kvs ''assets'' = Some a\<close> by (simp add: page_assets_def)
      from page_assets_descs_positive [OF run this assms(3)] show ?thesis .
    qed
  qed
qed (use assms(1) in \<open>simp_all add: process_data_def\<close>)

lemma fetch_loop_positive:
  "fetch_loop st rs = Done st' \<Longrightarrow> positive_amounts rs \<Longrightarrow>
   \<forall>(k, q) \<in> set (asset_quantities st). 1 \<le> q \<Longrightarrow>
   \<forall>(k, q) \<in> set (asset_quantities st'). 1 \<le> q"
proof (induction rs arbitrary: st)
  case Nil
  then show ?case by simp
next
  case (Cons r rs)
  let ?st = "st\<lparr>page_count := page_count st + 1\<rparr>"
  from Cons.prems(1) obtain b st1 where
    it: "iteration ?st r = Inr (b, st1)" and
    rest: "if b then fetch_loop st1 rs = Done st' else st1 = st'"
    by (auto split: sum.splits prod.splits if_splits)
  from it obtain data where r: "r = Inr data" and pd: "process_data ?st data = Inr (Fall b st1)"
    by (auto simp: iteration_def split: sum.splits outcome.splits)
  from Cons.prems(2) r have pos: "list_all positive_amount (page_assets data)"
    and posrs: "positive_amounts rs"
    by (simp_all add: positive_amounts_def)
  from Cons.prems(3) have "\<forall>(k, q) \<in> set (asset_quantities ?st). 1 \<le> q" by simp
  from process_data_positive [OF pd pos this]
  have st1: "\<forall>(k, q) \<in> set (asset_quantities st1). 1 \<le> q" .
  show ?case
  proof (cases b)
    case True
    with rest have "fetch_loop st1 rs = Done st'" by simp
    from Cons.IH [OF this posrs st1] show ?thesis .
  next
    case False
    with rest st1 show ?thesis by simp
  qed
qed

lemma join_described_dict:
  "join_described detailed cid qty (JDict kvs) =
     (case full_icon_url (dict_get kvs ''icon_url'' (JStr '''')) of
        Inl e \<Rightarrow> Inl e
      | Inr full \<Rightarrow>
     (case hash_key (dict_get kvs ''market_hash_name''
                      (dict_get kvs ''name'' (JStr (''Unknown Item '' @ py_str cid)))) of
        Inl e \<Rightarrow> Inl e
      | Inr k \<Rightarrow>
          Inr (update detailed k
                 (case lookup detailed k of
                    None \<Rightarrow> (new_item cid kvs full)\<lparr>quantity := qty\<rparr>
                  | Some it \<Rightarrow> it\<lparr>quantity := quantity it + qty\<rparr>))))"
  by (auto simp: join_described_def new_item_def Let_def lookup_update update_update
           split: sum.splits option.splits)

lemma join_described_result:
  assumes "join_described detailed cid qty desc_obj = Inr detailed'"
  shows "\<exists>k it. detailed' = update detailed k it
           \<and> quantity it = (case lookup detailed k of None \<Rightarrow> 0 | Some old \<Rightarrow> quantity old) + qty"
proof (cases desc_obj)
  case (JDict kvs)
  from assms obtain full k where
    d: "detailed' = update detailed k
          (case lookup detailed k of
             None \<Rightarrow> (new_item cid kvs full)\<lparr>quantity := qty\<rparr>
           | Some it \<Rightarrow> it\<lparr>quantity := quantity it + qty\<rparr>)"
    unfolding JDict join_described_dict by (auto split: sum.splits)
  show ?thesis
    by (rule exI [of _ k], rule exI, rule conjI, rule d) (simp split: option.splits)
qed (use assms in \<open>simp_all add: join_described_def\<close>)

lemma join_step_positive:
  assumes "join_step descs detailed (cid, qty) = Inr detailed'" "1 \<le> qty"
    and "\<forall>(k, it) \<in> set detailed. 1 \<le> quantity it"
  shows "\<forall>(k, it) \<in> set detailed'. 1 \<le> quantity it"
proof (cases "lookup descs cid")
  case None
  with assms show ?thesis
    by (auto simp: join_step_def Let_def dest!: update_set)
next
  case (Some desc_obj)
  with assms(1) have "join_described detailed cid qty desc_obj = Inr detailed'"
    by (simp add: join_step_def)
  from join_described_result [OF this] obtain k it where
    d: "detailed' = update detailed k it" and
    q: "quantity it = (case lookup detailed k of None \<Rightarrow> 0 | Some old \<Rightarrow> quantity old) + qty"
    by blast
  have "0 \<le> (case lookup detailed k of None \<Rightarrow> 0 | Some old \<Rightarrow> quantity old)"
    using assms(3) by (auto split: option.splits dest!: lookup_in_set)
  with q assms(2) have "1 \<le> quantity it" by simp
  with assms(3) show ?thesis unfolding d by (auto dest!: update_set)
qed

lemma join_loop_positive:
  "join_loop descs detailed cqs = Inr detailed' \<Longrightarrow> \<forall>(k, q) \<in> set cqs. 1 \<le> q \<Longrightarrow>
   \<forall>(k, it) \<in> set detailed. 1 \<le> quantity it \<Longrightarrow>
   \<forall>(k, it) \<in> set detailed'. 1 \<le> quantity it"
proof (induction cqs arbitrary: detailed)
  case Nil
  then show ?case by simp
next
  case (Cons cq cqs)
  obtain cid qty where cq: "cq = (cid, qty)" by (cases cq)
  from Cons.prems(1) cq obtain d1 where
    1: "join_step descs detailed (cid, qty) = Inr d1" and 2: "join_loop descs d1 cqs = Inr detailed'"
    by (auto split: sum.splits)
  from Cons.prems(2) cq have q: "1 \<le> qty" and qs: "\<forall>(k, q) \<in> set cqs. 1 \<le> q" by auto
  from join_step_positive [OF 1 q Cons.prems(3)] Cons.IH [OF 2 qs]
  show ?case by blast
qed

lemma iteration_exit:
  "iteration st r = Inl res \<Longrightarrow> (\<exists>s. res = Status s) \<or> (\<exists>e. res = Raised e)"
  by (auto simp: iteration_def handlers_def split: sum.splits outcome.splits if_splits)

lemma fetch_loop_exit:
  "fetch_loop st rs = Exit res \<Longrightarrow> (\<exists>s. res = Status s) \<or> (\<exists>e. res = Raised e)"
proof (induction rs arbitrary: st)
  case Nil
  then show ?case by simp
next
  case (Cons r rs)
  then show ?case
    by (auto split: sum.splits prod.splits if_splits dest: iteration_exit)
qed

subsection \<open>Filling a dictionary from another\<close>

lemma lookup_None_iff: "lookup d k = None \<longleftrightarrow> (\<forall>(k', v) \<in> set d. \<not> key_eq k' k)"
  by (induction d) (auto split: if_splits)

lemma update_absent: "lookup d k = None \<Longrightarrow> update d k v = d @ [(k, v)]"
  by (induction d) (auto split: if_splits)

lemma foldl_update_filter:
  "distinct_keys d \<Longrightarrow> \<forall>(k, v) \<in> set d. lookup acc k = None \<Longrightarrow>
   foldl (\<lambda>res (k, v). if P k v then update res k v else res) acc d
     = acc @ filter (\<lambda>(k, v). P k v) d"
proof (induction d arbitrary: acc)
  case Nil
  then show ?case by simp
next
  case (Cons kv d)
  obtain k v where kv: "kv = (k, v)" by (cases kv)
  from Cons.prems kv have dk: "lookup d k = None" and dd: "distinct_keys d"
    and ak: "lookup acc k = None" and ad: "\<forall>(k', v') \<in> set d. lookup acc k' = None"
    by auto
  show ?case
  proof (cases "P k v")
    case True
    have "\<forall>(k', v') \<in> set d. lookup (acc @ [(k, v)]) k' = None"
      using ad dk by (auto simp: lookup_None_iff key_eq_def)
    from Cons.IH [OF dd this] True ak kv show ?thesis
      by (simp add: update_absent)
  next
    case False
    with Cons.IH [OF dd ad] kv show ?thesis by simp
  qed
qed

subsection \<open>The key of a described class id\<close>


subsection \<open>Responses without both keys, and the asset loop on a longer list\<close>

lemma join_not_status: "join st \<noteq> Status s"
  by (simp add: join_def split: sum.splits)

lemma join_page_count: "join (st\<lparr>page_count := n\<rparr>) = join st"
  by (simp add: join_def)

lemma process_data_lacking:
  assumes "lacks_keys kvs"
  shows "process_data st (JDict kvs) =
           Inr (if zero_or_no_total kvs \<and> no_assets kvs then Return ''inventory_empty''
                else if page_count st = 1 then Return ''inventory_private_or_error''
                else Fall False st)"
  using assms
  by (auto simp: process_data_def lacks_keys_def zero_or_no_total_def no_assets_def dict_get_def
           split: option.splits)

lemma asset_loop_append:
  "asset_loop aq (xs @ ys) = (case asset_loop aq xs of Inl e \<Rightarrow> Inl e | Inr aq' \<Rightarrow> asset_loop aq' ys)"
  by (induction xs arbitrary: aq) (auto split: sum.splits)

subsection \<open>The inventory returned has distinct keys\<close>

lemma distinct_keys_update: "distinct_keys d \<Longrightarrow> distinct_keys (update d k v)"
proof (induction d)
  case Nil
  then show ?case by simp
next
  case (Cons kv d)
  obtain k' v' where kv: "kv = (k', v')" by (cases kv)
  with Cons show ?case
    by (auto simp: lookup_update dest: key_eq_sym)
qed

lemma join_step_update:
  assumes "join_step descs detailed cq = Inr detailed'"
  shows "\<exists>k it. detailed' = update detailed k it"
proof (cases cq)
  case (Pair cid qty)
  show ?thesis
  proof (cases "lookup descs cid")
    case None
    with assms Pair show ?thesis
      by (auto simp: join_step_def Let_def)
  next
    case (Some desc_obj)
    with assms Pair have "join_described detailed cid qty desc_obj = Inr detailed'"
      by (simp add: join_step_def)
    from join_described_result [OF this] show ?thesis by blast
  qed
qed

lemma join_loop_distinct_keys:
  "join_loop descs detailed cqs = Inr detailed' \<Longrightarrow> distinct_keys detailed \<Longrightarrow>
   distinct_keys detailed'"
proof (induction cqs arbitrary: detailed)
  case Nil
  then show ?case by simp
next
  case (Cons cq cqs)
  from Cons.prems(1) obtain d1 where
    1: "join_step descs detailed cq = Inr d1" and 2: "join_loop descs d1 cqs = Inr detailed'"
    by (auto split: sum.splits)
  from join_step_update [OF 1] Cons.prems(2) have "distinct_keys d1"
    by (auto simp: distinct_keys_update)
  from Cons.IH [OF 2 this] show ?case .
qed

lemma fetched_inventory_distinct_keys:
  assumes "fetch_steam_inventory responses = Some (Inventory detailed)"
  shows "distinct_keys detailed"
proof -
  from assms obtain st where
    "fetch_loop init_state responses = Done st" and
    "join_loop (all_descriptions st) [] (asset_quantities st) = Inr detailed"
    by (auto simp: fetch_steam_inventory_def join_def split: run.splits sum.splits
             dest: fetch_loop_exit)
  from join_loop_distinct_keys [OF this(2)] show ?thesis by simp
qed

subsection \<open>The example pages\<close>

lemma page_one_asking: "fetch_loop init_state [Inr page_one] = Asking state_one"
  by code_simp

lemma two_pages_sequence: "page_sequence [page_one, page_two]"
  by code_simp

lemma join_state_one: "join state_one = Inventory inventory_one"
  by code_simp

section \<open>Accumulation across pages\<close>

text \<open>
  Claim C1. For every sequence of valid pages (each but the last announcing more items),
  the loop ends normally, and the quantity it has accumulated for a class id \<open>c\<close> is the sum
  of the amounts of all asset records of all pages whose class id is \<open>c\<close>, a record without
  \<^verbatim>\<open>amount\<close> counting 1; a class id that no asset record bears has no entry.
\<close>

theorem accumulated_quantities:
  assumes "page_sequence pages"
  shows "\<exists>st. fetch_loop init_state (map Inr pages) = Done st
           \<and> (\<forall>c. lookup (asset_quantities st) c
                   = (if list_ex (has_class c) (concat (map page_assets pages))
                      then Some (total_amount c (concat (map page_assets pages)))
                      else None))"
  using fetch_loop_sequence [OF assms, of init_state]
  by (auto simp: tally_def init_state_def)

theorem accumulated_quantities_witness:
  "page_sequence [page_one, page_two]
   \<and> (\<exists>st. fetch_loop init_state (map Inr [page_one, page_two]) = Done st
          \<and> lookup (asset_quantities st) (KStr ''1'') = Some 5
          \<and> lookup (asset_quantities st) (KStr ''2'') = Some 3
          \<and> lookup (asset_quantities st) (KStr ''3'') = None)"
proof -
  let ?all = "concat (map page_assets [page_one, page_two])"
  have 1: "(if list_ex (has_class (KStr ''1'')) ?all
            then Some (total_amount (KStr ''1'') ?all) else None) = Some 5"
    by code_simp
  have 2: "(if list_ex (has_class (KStr ''2'')) ?all
            then Some (total_amount (KStr ''2'') ?all) else None) = Some 3"
    by code_simp
  have 3: "(if list_ex (has_class (KStr ''3'')) ?all
            then Some (total_amount (KStr ''3'') ?all) else None) = None"
    by code_simp
  from accumulated_quantities [OF two_pages_sequence] obtain st where
    "fetch_loop init_state (map Inr [page_one, page_two]) = Done st"
    "\<And>c. lookup (asset_quantities st) c
          = (if list_ex (has_class c) ?all then Some (total_amount c ?all) else None)"
    by blast
  with 1 2 3 two_pages_sequence show ?thesis by metis
qed

text \<open>
  Claim C2. For every such sequence of pages, the description the loop has kept for a
  class id \<open>c\<close> is the first description record, in page order, whose class id is \<open>c\<close>:
  later records of the same class id are ignored. When class \<open>1\<close> is described with the
  name \<open>A\<close> on the first page and with the name \<open>B\<close> on the second, the item returned for it
  has the name \<open>A\<close>.
\<close>

theorem first_description_wins:
  assumes "page_sequence pages"
  shows "\<exists>st. fetch_loop init_state (map Inr pages) = Done st
           \<and> (\<forall>c. lookup (all_descriptions st) c
                   = find (has_class c) (concat (map page_descriptions pages)))"
  using fetch_loop_sequence [OF assms, of init_state]
  by (auto simp: first_seen_def init_state_def)

theorem first_description_wins_witness:
  "page_sequence [page_one, page_two]
   \<and> (\<exists>st. fetch_loop init_state (map Inr [page_one, page_two]) = Done st
          \<and> lookup (all_descriptions st) (KStr ''1'')
              = Some (JDict [(''classid'', JStr ''1''), (''name'', JStr ''A''),
                             (''tradable'', JInt 1), (''icon_url'', JStr ''/abc'')]))
   \<and> fetch_steam_inventory [Inr page_one, Inr page_two] = Some (Inventory inventory_two)"
proof -
  have 1: "find (has_class (KStr ''1'')) (concat (map page_descriptions [page_one, page_two]))
           = Some (JDict [(''classid'', JStr ''1''), (''name'', JStr ''A''),
                          (''tradable'', JInt 1), (''icon_url'', JStr ''/abc'')])"
    by code_simp
  have 2: "fetch_steam_inventory [Inr page_one, Inr page_two] = Some (Inventory inventory_two)"
    by code_simp
  from first_description_wins [OF two_pages_sequence] obtain st where
    "fetch_loop init_state (map Inr [page_one, page_two]) = Done st"
    "\<And>c. lookup (all_descriptions st) c
          = find (has_class c) (concat (map page_descriptions [page_one, page_two]))"
    by blast
  with 1 2 two_pages_sequence show ?thesis by metis
qed

section \<open>Stored quantities\<close>

text \<open>
  Claim C8. When the function returns an inventory for responses whose asset records all
  carry positive amounts, every item stored in it has a quantity of at least 1.
\<close>

theorem stored_quantities_positive:
  assumes "fetch_steam_inventory responses = Some (Inventory detailed)"
    and "positive_amounts responses"
  shows "\<forall>(k, it) \<in> set detailed. 1 \<le> quantity it"
proof -
  from assms(1) obtain st where
    lp: "fetch_loop init_state responses = Done st" and
    jn: "join_loop (all_descriptions st) [] (asset_quantities st) = Inr detailed"
    by (auto simp: fetch_steam_inventory_def join_def split: run.splits sum.splits
             dest: fetch_loop_exit)
  have "\<forall>(k, q) \<in> set (asset_quantities init_state). 1 \<le> q"
    by (simp add: init_state_def)
  from fetch_loop_positive [OF lp assms(2) this]
  have "\<forall>(k, q) \<in> set (asset_quantities st). 1 \<le> q" .
  from join_loop_positive [OF jn this] show ?thesis by simp
qed

theorem stored_quantities_positive_witness:
  "fetch_steam_inventory [Inr page_one, Inr page_two] = Some (Inventory inventory_two)
   \<and> positive_amounts [Inr page_one, Inr page_two]
   \<and> list_all (\<lambda>(k, it). 1 \<le> quantity it) inventory_two"
proof -
  have 1: "fetch_steam_inventory [Inr page_one, Inr page_two] = Some (Inventory inventory_two)"
    by code_simp
  have 2: "positive_amounts [Inr page_one, Inr page_two]"
    by code_simp
  from stored_quantities_positive [OF 1 2] 1 2 show ?thesis
    by (simp add: list_all_iff)
qed

section \<open>The join\<close>



section \<open>Responses without assets or descriptions\<close>

text \<open>
  Claim C4, as the program has it. A response object that does not supply both keys, on a
  request the loop makes after the responses \<open>rs\<close>: the function returns
  \<^verbatim>\<open>"inventory_empty"\<close> when the total count is 0 or missing and there are no assets, on
  whichever page; else \<^verbatim>\<open>"inventory_private_or_error"\<close> on the first page; else the loop
  ends and the join of what the earlier pages accumulated is returned, which is never a
  status string. The counterexample: an empty object, which reports no total, gives
  \<^verbatim>\<open>"inventory_empty"\<close> on the first page and on a second page, where the claim has
  \<^verbatim>\<open>"inventory_private_or_error"\<close> and the items of the first page.
\<close>

theorem missing_keys_outcome:
  assumes "fetch_loop init_state rs = Asking st" "lacks_keys kvs"
  shows "fetch_steam_inventory (rs @ Inr (JDict kvs) # rs')
           = Some (if zero_or_no_total kvs \<and> no_assets kvs then Status ''inventory_empty''
                   else if rs = [] then Status ''inventory_private_or_error''
                   else join st)
       \<and> (\<forall>s. join st \<noteq> Status s)"
proof -
  from fetch_loop_page_count [OF assms(1)] have pc: "page_count st = length rs"
    by (simp add: init_state_def)
  have "fetch_loop init_state (rs @ Inr (JDict kvs) # rs') = fetch_loop st (Inr (JDict kvs) # rs')"
    by (rule fetch_loop_append [OF assms(1)])
  then show ?thesis
    using pc
    by (simp add: fetch_steam_inventory_def iteration_def process_data_lacking [OF assms(2)]
                  join_page_count join_not_status)
qed

theorem missing_keys_counterexample:
  "lacks_keys []
   \<and> fetch_steam_inventory [Inr (JDict [])] = Some (Status ''inventory_empty'')
   \<and> claimed_outcome True init_state [] = Status ''inventory_private_or_error''
   \<and> fetch_steam_inventory [Inr (JDict [])] \<noteq> Some (claimed_outcome True init_state [])
   \<and> fetch_loop init_state [Inr page_one] = Asking state_one
   \<and> fetch_steam_inventory [Inr page_one, Inr (JDict [])] = Some (Status ''inventory_empty'')
   \<and> claimed_outcome False state_one [] = Inventory inventory_one
   \<and> fetch_steam_inventory [Inr page_one, Inr (JDict [])] \<noteq> Some (claimed_outcome False state_one [])"
  by code_simp

theorem missing_keys_outcome_witness:
  "fetch_loop init_state [] = Asking init_state
   \<and> fetch_loop init_state [Inr page_one] = Asking state_one
   \<and> lacks_keys [] \<and> lacks_keys [(''total_inventory_count'', JInt 5)]
   \<and> fetch_steam_inventory ([] @ Inr (JDict []) # []) = Some (Status ''inventory_empty'')
   \<and> fetch_steam_inventory ([] @ Inr (JDict [(''total_inventory_count'', JInt 5)]) # [])
       = Some (Status ''inventory_private_or_error'')
   \<and> fetch_steam_inventory ([Inr page_one] @ Inr (JDict [(''total_inventory_count'', JInt 5)]) # [])
       = Some (Inventory inventory_one)"
proof -
  have 1: "fetch_loop init_state [] = Asking init_state" by simp
  have 2: "lacks_keys []" by code_simp
  have 3: "lacks_keys [(''total_inventory_count'', JInt 5)]" by code_simp
  have 4: "zero_or_no_total [] \<and> no_assets []" by code_simp
  have 5: "\<not> zero_or_no_total [(''total_inventory_count'', JInt 5)]" by code_simp
  from missing_keys_outcome [OF 1 2, of "[]"]
       missing_keys_outcome [OF 1 3, of "[]"]
       missing_keys_outcome [OF page_one_asking 3, of "[]"]
       1 2 3 4 5 page_one_asking join_state_one
  show ?thesis by simp
qed

section \<open>Amounts that do not parse\<close>

text \<open>
  Claim C10. On a page that the loop requests and that has both keys, an asset record
  whose \<^verbatim>\<open>amount\<close> is a string that \<^verbatim>\<open>int\<close> does not parse, the asset records before it
  being valid: the function returns \<^verbatim>\<open>"api_decode_error"\<close>, the status string alone, whatever
  earlier pages and earlier records have accumulated.
\<close>

theorem unparseable_amount:
  assumes "fetch_loop init_state rs = Asking st"
    and "map_of kvs ''assets'' = Some (JList (before @ JDict entries # after))"
    and "map_of kvs ''descriptions'' = Some descs"
    and "list_all valid_asset before"
    and "map_of entries ''amount'' = Some (JStr s)"
    and "int_of_str s = None"
  shows "fetch_steam_inventory (rs @ Inr (JDict kvs) # rs') = Some (Status ''api_decode_error'')"
proof -
  from asset_loop_tally [OF assms(4), of "asset_quantities st"] obtain aq where
    aq: "asset_loop (asset_quantities st) before = Inr aq"
    by blast
  have step: "asset_step aq (JDict entries) = Inl [ValueError]"
    using assms(5,6) by (simp add: asset_step_def dict_get_def)
  have "asset_loop (asset_quantities st) (before @ JDict entries # after) = Inl [ValueError]"
    by (simp add: asset_loop_append aq step)
  then have "process_data (st\<lparr>page_count := page_count st + 1\<rparr>) (JDict kvs) = Inl [ValueError]"
    using assms(2,3) by (simp add: process_data_def page_assets_descs_def)
  then show ?thesis
    using fetch_loop_append [OF assms(1), of "Inr (JDict kvs) # rs'"]
    by (simp add: fetch_steam_inventory_def iteration_def handlers_def isinstance_def)
qed

theorem unparseable_amount_witness:
  "fetch_loop init_state [Inr page_one] = Asking state_one
   \<and> map_of page_bad_amount ''assets''
       = Some (JList ([JDict [(''classid'', JStr ''1''), (''amount'', JStr ''2'')]]
                      @ JDict [(''classid'', JStr ''3''), (''amount'', JStr ''two'')]
                      # [JDict [(''classid'', JStr ''4'')]]))
   \<and> int_of_str ''two'' = None
   \<and> fetch_steam_inventory ([Inr page_one] @ Inr (JDict page_bad_amount) # [])
       = Some (Status ''api_decode_error'')"
proof -
  have 1: "map_of page_bad_amount ''assets''
       = Some (JList ([JDict [(''classid'', JStr ''1''), (''amount'', JStr ''2'')]]
                      @ JDict [(''classid'', JStr ''3''), (''amount'', JStr ''two'')]
                      # [JDict [(''classid'', JStr ''4'')]]))"
    by code_simp
  have 2: "map_of page_bad_amount ''descriptions'' = Some (JList [])" by code_simp
  have 3: "list_all valid_asset [JDict [(''classid'', JStr ''1''), (''amount'', JStr ''2'')]]"
    by code_simp
  have 4: "map_of [(''classid'', JStr ''3''), (''amount'', JStr ''two'')] ''amount'' = Some (JStr ''two'')"
    by code_simp
  have 5: "int_of_str ''two'' = None" by code_simp
  from unparseable_amount [OF page_one_asking 1 2 3 4 5, of "[]"] page_one_asking 1 5
  show ?thesis by blast
qed

text \<open>
  Claim C3. Class ids that resolve to one key are merged into one item, the quantities
  summed and the first item's other fields kept: so the branch for a described class id
  does (lemma \<open>join_described_dict\<close>). The branch for a class id without description
  assigns the synthesized item instead (lines 170-174): on a page where class \<open>1\<close>, 5 pieces,
  is described with the market hash name \<^verbatim>\<open>Unknown Item (ClassID: 2)\<close> and class \<open>2\<close>,
  3 pieces, has no description, the item returned under that key has the quantity 3 and
  the synthesized fields of class \<open>2\<close>, not the quantity 8 and the fields of class \<open>1\<close>.
\<close>

theorem colliding_unknown_key_overwrites:
  "(case fetch_loop init_state [Inr page_collision] of
      Done st \<Rightarrow> asset_quantities st
    | _ \<Rightarrow> []) = [(KStr ''1'', 5), (KStr ''2'', 3)]
   \<and> fetch_steam_inventory [Inr page_collision]
       = Some (Inventory [(KStr ''Unknown Item (ClassID: 2)'', item_unknown)])"
  by code_simp

section \<open>Failed requests\<close>

text \<open>
  The \<^verbatim>\<open>except\<close> clauses by the classes of the exception, whatever request of the fetch it
  is (the responses \<open>rs\<close> before it have left the loop asking for another page): a
  \<^verbatim>\<open>Timeout\<close> gives \<^verbatim>\<open>"request_timeout"\<close>, and no further request is made; another
  \<^verbatim>\<open>RequestException\<close> gives \<^verbatim>\<open>"network_error"\<close>; a \<^verbatim>\<open>ValueError\<close> that is no
  \<^verbatim>\<open>RequestException\<close> gives \<^verbatim>\<open>"api_decode_error"\<close>. The value returned is the status string
  alone: what was accumulated from \<open>rs\<close> is dropped.
\<close>

lemma request_failure_status:
  assumes "fetch_loop init_state rs = Asking st"
  shows "(isinstance e Timeout \<longrightarrow>
            fetch_steam_inventory (rs @ Inl e # rs') = Some (Status ''request_timeout''))
       \<and> (isinstance e RequestException \<and> \<not> isinstance e Timeout \<longrightarrow>
            fetch_steam_inventory (rs @ Inl e # rs') = Some (Status ''network_error''))
       \<and> (isinstance e ValueError \<and> \<not> isinstance e RequestException \<and> \<not> isinstance e Timeout \<longrightarrow>
            fetch_steam_inventory (rs @ Inl e # rs') = Some (Status ''api_decode_error''))"
  using fetch_loop_append [OF assms, of "Inl e # rs'"]
  by (simp add: fetch_steam_inventory_def iteration_def handlers_def)

lemma request_failure_status_example:
  "fetch_loop init_state [Inr page_one] = Asking state_one
   \<and> fetch_steam_inventory ([Inr page_one] @ Inl [Timeout, RequestException] # [Inr page_two])
       = Some (Status ''request_timeout'')
   \<and> fetch_steam_inventory ([Inr page_one] @ Inl [RequestException] # [Inr page_two])
       = Some (Status ''network_error'')
   \<and> fetch_steam_inventory ([Inr page_one] @ Inl [ValueError] # [Inr page_two])
       = Some (Status ''api_decode_error'')"
  using request_failure_status [OF page_one_asking, of "[Timeout, RequestException]" "[Inr page_two]"]
        request_failure_status [OF page_one_asking, of "[RequestException]" "[Inr page_two]"]
        request_failure_status [OF page_one_asking, of "[ValueError]" "[Inr page_two]"]
        page_one_asking
  by (simp add: isinstance_def)

text \<open>
  Claim C5. A request that times out gives \<^verbatim>\<open>"request_timeout"\<close>, another transport failure
  \<^verbatim>\<open>"network_error"\<close>, and a body that does not parse \<^verbatim>\<open>"api_decode_error"\<close>, each the status
  string alone. The program has a clause for the last (\<^verbatim>\<open>except ValueError: # JSONDecodeError\<close>,
  lines 145-146), but the clause for \<^verbatim>\<open>RequestException\<close> stands before it (lines 143-144)
  and takes the exception that \<^verbatim>\<open>response.json()\<close> raises, which is both: for a body that
  does not parse, on the first request or on a later one, the function returns
  \<^verbatim>\<open>"network_error"\<close> and not \<^verbatim>\<open>"api_decode_error"\<close>.
\<close>

theorem unparsed_body_is_network_error:
  "isinstance decode_failure RequestException
   \<and> isinstance decode_failure ValueError
   \<and> fetch_steam_inventory [Inl decode_failure] = Some (Status ''network_error'')
   \<and> fetch_loop init_state [Inr page_one] = Asking state_one
   \<and> fetch_steam_inventory [Inr page_one, Inl decode_failure] = Some (Status ''network_error'')"
  by code_simp

section \<open>The three result mappings\<close>

text \<open>
  Claim C7. For all inventories of the owner and of the counterpart (dictionaries, so with
  distinct keys, as every inventory that \<^verbatim>\<open>fetch_steam_inventory\<close> returns has by lemma
  \<open>fetched_inventory_distinct_keys\<close>), the three mappings returned are: the owner's items
  with a quantity above 1 that are tradable; those of these whose key is absent from the
  counterpart's inventory, whatever quantities the counterpart has; and the counterpart's
  items with a quantity above 1 that are tradable and whose key is absent from the owner's
  inventory.
\<close>

theorem differ_mappings:
  assumes "distinct_keys owner" "distinct_keys counterpart"
  shows "fixed_user_tradable_duplicates (analyze_inventories_for_streamlit owner counterpart)
           = filter (\<lambda>(k, it). 1 < quantity it \<and> tradable it) owner
       \<and> fixed_user_has_you_dont_dupes (analyze_inventories_for_streamlit owner counterpart)
           = filter (\<lambda>(k, it). lookup counterpart k = None)
               (fixed_user_tradable_duplicates (analyze_inventories_for_streamlit owner counterpart))
       \<and> you_have_fixed_user_doesnt_dupes (analyze_inventories_for_streamlit owner counterpart)
           = filter (\<lambda>(k, it). 1 < quantity it \<and> tradable it \<and> lookup owner k = None) counterpart"
proof -
  have 1: "foldl (\<lambda>res (k, it). if 1 < quantity it \<and> tradable it then update res k it else res)
             [] owner = filter (\<lambda>(k, it). 1 < quantity it \<and> tradable it) owner"
    using foldl_update_filter [OF assms(1), of "[]" "\<lambda>k it. 1 < quantity it \<and> tradable it"]
    by simp
  have 2: "foldl (\<lambda>res (k, it). if 1 < quantity it \<and> tradable it \<and> lookup counterpart k = None
                                  then update res k it else res) [] owner
            = filter (\<lambda>(k, it). 1 < quantity it \<and> tradable it \<and> lookup counterpart k = None) owner"
    using foldl_update_filter [OF assms(1), of "[]"
            "\<lambda>k it. 1 < quantity it \<and> tradable it \<and> lookup counterpart k = None"]
    by simp
  have 3: "foldl (\<lambda>res (k, it). if 1 < quantity it \<and> tradable it \<and> lookup owner k = None
                                  then update res k it else res) [] counterpart
            = filter (\<lambda>(k, it). 1 < quantity it \<and> tradable it \<and> lookup owner k = None) counterpart"
    using foldl_update_filter [OF assms(2), of "[]"
            "\<lambda>k it. 1 < quantity it \<and> tradable it \<and> lookup owner k = None"]
    by simp
  have 4: "filter (\<lambda>(k, it). lookup counterpart k = None)
             (filter (\<lambda>(k, it). 1 < quantity it \<and> tradable it) owner)
           = filter (\<lambda>(k, it). 1 < quantity it \<and> tradable it \<and> lookup counterpart k = None) owner"
    by (induction owner) auto
  have a: "fixed_user_tradable_duplicates (analyze_inventories_for_streamlit owner counterpart)
           = filter (\<lambda>(k, it). 1 < quantity it \<and> tradable it) owner"
    unfolding analyze_inventories_for_streamlit_def using 1 by simp
  have b: "fixed_user_has_you_dont_dupes (analyze_inventories_for_streamlit owner counterpart)
           = filter (\<lambda>(k, it). 1 < quantity it \<and> tradable it \<and> lookup counterpart k = None) owner"
    unfolding analyze_inventories_for_streamlit_def using 2 by simp
  have c: "you_have_fixed_user_doesnt_dupes (analyze_inventories_for_streamlit owner counterpart)
           = filter (\<lambda>(k, it). 1 < quantity it \<and> tradable it \<and> lookup owner k = None) counterpart"
    unfolding analyze_inventories_for_streamlit_def using 3 by simp
  from a b c 4 show ?thesis by presburger
qed

theorem differ_mappings_witness:
  "distinct_keys inventory_two \<and> distinct_keys inventory_other
   \<and> fixed_user_tradable_duplicates (analyze_inventories_for_streamlit inventory_two inventory_other)
       = [inventory_two ! 0]
   \<and> fixed_user_has_you_dont_dupes (analyze_inventories_for_streamlit inventory_two inventory_other)
       = [inventory_two ! 0]
   \<and> you_have_fixed_user_doesnt_dupes (analyze_inventories_for_streamlit inventory_two inventory_other)
       = [inventory_other ! 1]"
proof -
  have 1: "distinct_keys inventory_two" by code_simp
  have 2: "distinct_keys inventory_other" by code_simp
  have 3: "filter (\<lambda>(k, it). 1 < quantity it \<and> tradable it) inventory_two = [inventory_two ! 0]"
    by code_simp
  have 4: "filter (\<lambda>(k, it). lookup inventory_other k = None) [inventory_two ! 0] = [inventory_two ! 0]"
    by code_simp
  have 5: "filter (\<lambda>(k, it). 1 < quantity it \<and> tradable it \<and> lookup inventory_two k = None)
             inventory_other = [inventory_other ! 1]"
    by code_simp
  from differ_mappings [OF 1 2] 1 2 3 4 5 show ?thesis by simp
qed

text \<open>
  Claim C9. For all inventories \<open>a\<close> and \<open>b\<close>, the mapping of the counterpart's duplicates
  that the owner lacks, computed for the owner \<open>a\<close> and the counterpart \<open>b\<close>, is the mapping
  of the owner's duplicates that the counterpart lacks, computed for the owner \<open>b\<close> and the
  counterpart \<open>a\<close>.
\<close>

theorem diff_symmetry:
  "you_have_fixed_user_doesnt_dupes (analyze_inventories_for_streamlit a b)
     = fixed_user_has_you_dont_dupes (analyze_inventories_for_streamlit b a)"
  by (simp add: analyze_inventories_for_streamlit_def)

end
